theory Spec2Isabelle
  imports Complex_Main "HOL-Library.Word" "HOL-Library.Sublist"
begin

text \<open>
  A shallow embedding of the EPUB-to-text service: \<open>convertEpubToText\<close>, which unpacks an
  archive, reads its container, manifest and spine, and concatenates the text of the
  content documents, and \<open>extractTextFromHtml\<close>, which turns one content document into
  text. The archive library and the markup parser are parameters of the model; strings,
  \<open>decodeURIComponent\<close> and the reads of the manifest object follow ECMAScript.
\<close>

section \<open>JavaScript strings\<close>

text \<open>
  A JavaScript string is a sequence of UTF-16 code units: \<open>length\<close> counts code units,
  and \<open>trim\<close>, \<open>includes\<close>, \<open>split\<close> and the regular expression of the source all read
  code units. \<open>js\<close> turns an ASCII literal into such a string.
\<close>

type_synonym jschar = "16 word"
type_synonym jsstring = "jschar list"

definition js :: "string \<Rightarrow> jsstring" where
  "js s = map of_char s"

definition NL :: jschar where
  "NL = 0xA"

text \<open>
  \<open>String.prototype.trim\<close> strips WhiteSpace and LineTerminator code units (ECMA-262):
  TAB, LF, VT, FF, CR, SP, NBSP, U+1680, U+2000..U+200A, U+2028, U+2029, U+202F, U+205F,
  U+3000 and U+FEFF.
\<close>

definition isWhiteSpace :: "jschar \<Rightarrow> bool" where
  "isWhiteSpace c =
     (c \<in> set [0x9, 0xA, 0xB, 0xC, 0xD, 0x20, 0xA0, 0x1680, 0x2028, 0x2029, 0x202F, 0x205F,
               0x3000, 0xFEFF]
      \<or> (0x2000 \<le> c \<and> c \<le> 0x200A))"

definition trim :: "jsstring \<Rightarrow> jsstring" where
  "trim s = rev (dropWhile isWhiteSpace (rev (dropWhile isWhiteSpace s)))"

text \<open>\<open>s.includes(sub)\<close>: \<open>sub\<close> occurs in \<open>s\<close> as a contiguous run of code units.\<close>

fun includes' :: "jsstring \<Rightarrow> jsstring \<Rightarrow> bool" where
  "includes' [] sub = (sub = [])"
| "includes' (c # cs) sub = (prefix sub (c # cs) \<or> includes' cs sub)"

text \<open>
  \<open>toLowerCase\<close> on the letters A..Z. Code units outside ASCII are left as they are: the
  source only asks whether the ASCII words \<open>toc\<close> and \<open>contents\<close> occur in the result and
  compares tag names with ASCII names.
\<close>

definition toLowerCase :: "jsstring \<Rightarrow> jsstring" where
  "toLowerCase s = map (\<lambda>c. if 0x41 \<le> c \<and> c \<le> 0x5A then c + 0x20 else c) s"

text \<open>\<open>s.split(sep)\<close> for a separator of one code unit, and \<open>lines.join('\n')\<close>.\<close>

fun splitOn :: "jschar \<Rightarrow> jsstring \<Rightarrow> jsstring list" where
  "splitOn sep [] = [[]]"
| "splitOn sep (c # cs) =
     (if c = sep then [] # splitOn sep cs
      else (case splitOn sep cs of [] \<Rightarrow> [[c]] | l # ls \<Rightarrow> (c # l) # ls))"

fun join_nl :: "jsstring list \<Rightarrow> jsstring" where
  "join_nl [] = []"
| "join_nl [l] = l"
| "join_nl (l # ls) = l @ NL # join_nl ls"

text \<open>
  \<open>s.replace(/\n{3,}/g, '\n\n')\<close>: the scan carries the length \<open>n\<close> of the run of newlines
  it is in; a maximal run of three or more is written back as two, a shorter one as it is.
\<close>

fun collapseRuns :: "nat \<Rightarrow> jsstring \<Rightarrow> jsstring" where
  "collapseRuns n [] = replicate (min n 2) NL"
| "collapseRuns n (c # cs) =
     (if c = NL then collapseRuns (Suc n) cs
      else replicate (min n 2) NL @ c # collapseRuns 0 cs)"

definition collapseNewlines :: "jsstring \<Rightarrow> jsstring" where
  "collapseNewlines s = collapseRuns 0 s"

text \<open>\<open>s.lastIndexOf(c)\<close>, \<open>-1\<close> when \<open>c\<close> does not occur, and \<open>s.substring(0, n)\<close>.\<close>

fun lastIndexOf :: "jsstring \<Rightarrow> jschar \<Rightarrow> int" where
  "lastIndexOf [] c = -1"
| "lastIndexOf (x # xs) c =
     (let r = lastIndexOf xs c in if r \<ge> 0 then r + 1 else if x = c then 0 else -1)"

definition substring0 :: "jsstring \<Rightarrow> int \<Rightarrow> jsstring" where
  "substring0 s n = take (nat n) s"

section \<open>decodeURIComponent\<close>

text \<open>
  The Decode operation of ECMA-262 with an empty preserve set. A \<open>%\<close> must be followed by
  two hexadecimal digits; an octet with a leading one bit opens a UTF-8 sequence of two to
  four octets, each of the following ones escaped as well; the octets must be a valid UTF-8
  encoding of a code point, which is written as UTF-16. Anything else throws URIError.
  The scan carries the number \<open>k\<close> of continuation octets it still expects and the octets
  read so far.
\<close>

datatype error =
    MissingContainer          \<comment> \<open>Invalid EPUB: Missing META-INF/container.xml\<close>
  | NoRootfile                \<comment> \<open>Invalid EPUB: No rootfile in container.xml\<close>
  | RootfilePathMissing       \<comment> \<open>Invalid EPUB: rootfile path is missing\<close>
  | OpfMissing jsstring       \<comment> \<open>Invalid EPUB: OPF file ... missing\<close>
  | URIError                  \<comment> \<open>thrown by decodeURIComponent\<close>
  | TypeError                 \<comment> \<open>a property read on undefined\<close>
  | ZipError                  \<comment> \<open>a rejection of the archive library\<close>

definition hexDigit :: "jschar \<Rightarrow> nat option" where
  "hexDigit c =
     (if 0x30 \<le> c \<and> c \<le> 0x39 then Some (unat c - 0x30)
      else if 0x41 \<le> c \<and> c \<le> 0x46 then Some (unat c - 0x41 + 10)
      else if 0x61 \<le> c \<and> c \<le> 0x66 then Some (unat c - 0x61 + 10)
      else None)"

definition parseHexOctet :: "jschar \<Rightarrow> jschar \<Rightarrow> nat option" where
  "parseHexOctet h1 h2 =
     (case hexDigit h1 of None \<Rightarrow> None
      | Some a \<Rightarrow> (case hexDigit h2 of None \<Rightarrow> None | Some b \<Rightarrow> Some (16 * a + b)))"

definition leadingOnes :: "nat \<Rightarrow> nat" where
  "leadingOnes b =
     (if b < 0x80 then 0 else if b < 0xC0 then 1 else if b < 0xE0 then 2
      else if b < 0xF0 then 3 else if b < 0xF8 then 4 else 5)"

definition utf8CodePoint :: "nat list \<Rightarrow> nat option" where
  "utf8CodePoint octets =
     (case octets of [] \<Rightarrow> None
      | b # conts \<Rightarrow>
          (let n = length octets;
               cp = foldl (\<lambda>v c. v * 64 + c mod 64) (b mod 2 ^ (7 - n)) conts;
               least = (if n = 2 then 0x80 else if n = 3 then 0x800 else 0x10000)
           in if list_all (\<lambda>c. 0x80 \<le> c \<and> c < 0xC0) conts \<and> least \<le> cp \<and> cp \<le> 0x10FFFF
                 \<and> \<not> (0xD800 \<le> cp \<and> cp \<le> 0xDFFF)
              then Some cp else None))"

definition utf16Encode :: "nat \<Rightarrow> jsstring" where
  "utf16Encode cp =
     (if cp \<le> 0xFFFF then [of_nat cp]
      else [of_nat (0xD800 + (cp - 0x10000) div 1024), of_nat (0xDC00 + (cp - 0x10000) mod 1024)])"

fun decodeFrom :: "nat \<Rightarrow> nat list \<Rightarrow> jsstring \<Rightarrow> error + jsstring" where
  "decodeFrom k octets [] = (if k = 0 then Inr [] else Inl URIError)"
| "decodeFrom k octets (c # cs) =
     (if c \<noteq> 0x25 then
        (if k = 0 then map_sum id (Cons c) (decodeFrom 0 [] cs) else Inl URIError)
      else
        (case cs of
           h1 # h2 # rest \<Rightarrow>
             (case parseHexOctet h1 h2 of
                None \<Rightarrow> Inl URIError
              | Some b \<Rightarrow>
                  if k = 0 then
                    (let n = leadingOnes b in
                     if n = 0 then map_sum id (Cons (of_nat b)) (decodeFrom 0 [] rest)
                     else if n = 1 \<or> n > 4 then Inl URIError
                     else decodeFrom (n - 1) [b] rest)
                  else if k = 1 then
                    (case utf8CodePoint (octets @ [b]) of
                       None \<Rightarrow> Inl URIError
                     | Some cp \<Rightarrow> map_sum id (append (utf16Encode cp)) (decodeFrom 0 [] rest))
                  else decodeFrom (k - 1) (octets @ [b]) rest)
         | _ \<Rightarrow> Inl URIError))"

definition decodeURIComponent :: "jsstring \<Rightarrow> error + jsstring" where
  "decodeURIComponent s = decodeFrom 0 [] s"

section \<open>The document tree\<close>

text \<open>
  What DOMParser returns, as far as the source reads it: text nodes (nodeType 3), CDATA
  sections (nodeType 4, part of \<open>textContent\<close>), elements with their local name, attributes
  and children, and every other node (comments, processing instructions). A document is
  given by its root element. The name of an element is the one type selectors match; in
  an HTML document \<open>tagName.toLowerCase()\<close> is its lower-case form.
\<close>

datatype node =
    Text jsstring
  | CData jsstring
  | Element jsstring "(jsstring \<times> jsstring) list" "node list"
  | Other

fun tagOf :: "node \<Rightarrow> jsstring option" where
  "tagOf (Element t a cs) = Some t"
| "tagOf n = None"

fun getAttribute :: "node \<Rightarrow> jsstring \<Rightarrow> jsstring option" where
  "getAttribute (Element t a cs) k = map_of a k"
| "getAttribute n k = None"

fun textContent :: "node \<Rightarrow> jsstring" where
  "textContent (Text t) = t"
| "textContent (CData t) = t"
| "textContent (Element t a cs) = concat (map textContent cs)"
| "textContent Other = []"

text \<open>
  The elements of a tree in document order, each with the name of its parent element
  (\<open>None\<close> for the root, whose parent is the document).
\<close>

fun elements :: "jsstring option \<Rightarrow> node \<Rightarrow> (jsstring option \<times> node) list" where
  "elements p (Element t a cs) = (p, Element t a cs) # concat (map (elements (Some t)) cs)"
| "elements p n = []"

text \<open>
  \<open>querySelectorAll\<close> for the two shapes of selector the source uses: a type selector
  \<open>name\<close>, and a child combinator \<open>parent > name\<close>. \<open>querySelector\<close> is the first match.
\<close>

datatype selector = Type jsstring | Child jsstring jsstring

fun matches :: "selector \<Rightarrow> jsstring option \<times> node \<Rightarrow> bool" where
  "matches (Type n) (p, e) = (tagOf e = Some n)"
| "matches (Child q n) (p, e) = (tagOf e = Some n \<and> p = Some q)"

definition querySelectorAll :: "node \<Rightarrow> selector \<Rightarrow> node list" where
  "querySelectorAll doc sel = map snd (filter (matches sel) (elements None doc))"

definition querySelector :: "node \<Rightarrow> selector \<Rightarrow> node option" where
  "querySelector doc sel = (case querySelectorAll doc sel of [] \<Rightarrow> None | e # es \<Rightarrow> Some e)"

section \<open>extractTextFromHtml\<close>

text \<open>
  The parser is a parameter: \<open>parseFromString\<close> maps a MIME type and a text to a document.
  It never throws; a text that is not well-formed XML yields an error document.
\<close>

datatype mime = ApplicationXml | TextHtml

definition removedTags :: "jsstring list" where
  "removedTags = map js [''script'', ''style'', ''link'', ''meta'', ''title'', ''svg'']"

definition isRemoved :: "node \<Rightarrow> bool" where
  "isRemoved n = (case tagOf n of None \<Rightarrow> False | Some t \<Rightarrow> t \<in> set removedTags)"

text \<open>\<open>scripts.forEach(node => node.remove())\<close>: every matching element leaves its parent.\<close>

fun removeNodes :: "node \<Rightarrow> node" where
  "removeNodes (Element t a cs) = Element t a (filter (\<lambda>c. \<not> isRemoved c) (map removeNodes cs))"
| "removeNodes n = n"

definition blockTags :: "jsstring list" where
  "blockTags = map js [''p'', ''div'', ''h1'', ''h2'', ''h3'', ''h4'', ''h5'', ''h6'', ''li'',
     ''br'', ''hr'', ''tr'']"

definition BULLET :: jsstring where
  "BULLET = [0x2022, 0x20]"

text \<open>
  The prefix and the suffix that \<open>walk\<close> gives an element, by the chain of conditions of the
  source: the last \<open>else\<close> is reached by the block elements other than \<open>p\<close>, \<open>br\<close> and \<open>li\<close>.
\<close>

definition affixes :: "jsstring \<Rightarrow> jsstring \<times> jsstring" where
  "affixes tagName =
     (if tagName \<in> set blockTags then
        (if tagName = js ''p'' then ([], [NL, NL])
         else if tagName = js ''br'' then ([], [NL])
         else if tagName = js ''li'' then (BULLET, [])
         else ([], [NL]))
      else ([], []))"

fun walk :: "node \<Rightarrow> jsstring" where
  "walk (Text t) = t"
| "walk (Element t a cs) =
     (let tagName = toLowerCase t;
          (pre, suf) = affixes tagName;
          innerText = concat (map walk cs)
      in pre @ innerText @ suf)"
| "walk n = []"

text \<open>
  \<open>doc.body\<close>: the first child of the \<open>html\<close> root that is a \<open>body\<close> or a \<open>frameset\<close>.
\<close>

definition body :: "node \<Rightarrow> node option" where
  "body doc =
     (case doc of
        Element t a cs \<Rightarrow>
          (if t = js ''html''
           then List.find (\<lambda>c. tagOf c = Some (js ''body'') \<or> tagOf c = Some (js ''frameset'')) cs
           else None)
      | _ \<Rightarrow> None)"

definition normalize :: "jsstring \<Rightarrow> jsstring" where
  "normalize rawText = trim (join_nl (map trim (splitOn NL (collapseNewlines rawText))))"

definition extractTextFromHtml :: "(mime \<Rightarrow> jsstring \<Rightarrow> node) \<Rightarrow> jsstring \<Rightarrow> jsstring" where
  "extractTextFromHtml parseFromString html =
     (let doc = removeNodes (parseFromString TextHtml html);
          b = (case body doc of Some b \<Rightarrow> b | None \<Rightarrow> doc);
          rawText = walk b
      in normalize rawText)"

section \<open>The archive, the environment and the data of the conversion\<close>

text \<open>
  A loaded archive maps the path of an entry to the entry (\<open>file(path)\<close> is \<open>null\<close> where
  the map is undefined). Reading an entry with \<open>async('string')\<close> yields its text, or
  rejects when the entry's data cannot be decompressed.
\<close>

datatype entry = Readable jsstring | Unreadable

type_synonym zip = "jsstring \<rightharpoonup> entry"

record File =
  name :: jsstring
  bytes :: "8 word list"

text \<open>
  The collaborators the source calls: \<open>JSZip.loadAsync\<close> (\<open>None\<close> when it rejects),
  \<open>DOMParser.parseFromString\<close>, and the rounding \<open>fl\<close> of an exact quotient or product to
  a double, as the division and the multiplication of \<open>(i / totalItems) * 60\<close> perform it.
\<close>

record env =
  loadAsync :: "File \<Rightarrow> zip option"
  parseFromString :: "mime \<Rightarrow> jsstring \<Rightarrow> node"
  fl :: "rat \<Rightarrow> rat"

record EpubManifestItem =
  id' :: jsstring
  href :: jsstring
  mediaType :: jsstring
  properties :: jsstring

record EpubSpineItem =
  idref :: jsstring

record ProcessedBook =
  filename :: jsstring
  title :: jsstring
  author :: jsstring
  content :: jsstring
  size' :: nat

datatype message =
    Unzipping                   \<comment> \<open>Unzipping file...\<close>
  | ReadingMetadata             \<comment> \<open>Reading metadata...\<close>
  | ProcessingChapter nat nat   \<comment> \<open>Processing chapter i of n...\<close>
  | Finalizing                  \<comment> \<open>Finalizing...\<close>

type_synonym progress = "int \<times> message"

subsection \<open>The manifest object\<close>

text \<open>
  \<open>manifestItems\<close> is a plain object \<open>{}\<close>: its own properties are the items stored under
  their ids, and a read falls through to its prototype chain. The chain ends in
  \<open>Object.prototype\<close>, whose members are functions and, under \<open>__proto__\<close>, an accessor:
  reading \<open>__proto__\<close> yields the object's prototype, and assigning an object to it
  replaces the prototype and stores no own property. After such an assignment the item
  assigned stands in the chain, and its four fields are read through it as strings.
\<close>

record jsobject =
  own :: "jsstring \<rightharpoonup> EpubManifestItem"
  proto :: "EpubManifestItem option"

datatype jsvalue =
    Undefined
  | Str jsstring
  | ItemObj EpubManifestItem
  | Builtin   \<comment> \<open>\<open>Object.prototype\<close> or one of its functions: an object with none of the item's fields\<close>

definition emptyObject :: jsobject where
  "emptyObject = \<lparr>own = Map.empty, proto = None\<rparr>"

definition objectPrototypeNames :: "jsstring list" where
  "objectPrototypeNames = map js [''constructor'', ''hasOwnProperty'', ''isPrototypeOf'',
     ''propertyIsEnumerable'', ''toLocaleString'', ''toString'', ''valueOf'',
     ''__defineGetter__'', ''__defineSetter__'', ''__lookupGetter__'', ''__lookupSetter__'']"

definition setProp :: "jsobject \<Rightarrow> jsstring \<Rightarrow> EpubManifestItem \<Rightarrow> jsobject" where
  "setProp obj k v =
     (if k = js ''__proto__'' then obj\<lparr>proto := Some v\<rparr>
      else obj\<lparr>own := (own obj)(k \<mapsto> v)\<rparr>)"

definition getInherited :: "jsobject \<Rightarrow> jsstring \<Rightarrow> jsvalue" where
  "getInherited obj k =
     (if k = js ''__proto__'' then (case proto obj of Some p \<Rightarrow> ItemObj p | None \<Rightarrow> Builtin)
      else if k \<in> set objectPrototypeNames then Builtin
      else Undefined)"

definition getProp :: "jsobject \<Rightarrow> jsstring \<Rightarrow> jsvalue" where
  "getProp obj k =
     (case own obj k of
        Some item \<Rightarrow> ItemObj item
      | None \<Rightarrow>
          (case proto obj of
             None \<Rightarrow> getInherited obj k
           | Some p \<Rightarrow>
               if k = js ''id'' then Str (id' p)
               else if k = js ''href'' then Str (href p)
               else if k = js ''mediaType'' then Str (mediaType p)
               else if k = js ''properties'' then Str (properties p)
               else getInherited obj k))"

fun truthy :: "jsvalue \<Rightarrow> bool" where
  "truthy Undefined = False"
| "truthy (Str s) = (s \<noteq> [])"
| "truthy (ItemObj item) = True"
| "truthy Builtin = True"

subsection \<open>Locating the manifest document\<close>

definition orEmpty :: "jsstring option \<Rightarrow> jsstring" where
  "orEmpty v = (case v of None \<Rightarrow> [] | Some s \<Rightarrow> s)"

text \<open>
  Step 1 of the source, after the first progress call: the loaded archive and the
  \<open>full-path\<close> of the first \<open>rootfile\<close> element of the container, or the exception thrown.
\<close>

definition resolveContainer :: "env \<Rightarrow> File \<Rightarrow> error + zip \<times> jsstring" where
  "resolveContainer E file =
     (case loadAsync E file of
        None \<Rightarrow> Inl ZipError
      | Some loadedZip \<Rightarrow>
          (case loadedZip (js ''META-INF/container.xml'') of
             None \<Rightarrow> Inl MissingContainer
           | Some Unreadable \<Rightarrow> Inl ZipError
           | Some (Readable containerXml) \<Rightarrow>
               (let containerDoc = parseFromString E ApplicationXml containerXml
                in case querySelector containerDoc (Type (js ''rootfile'')) of
                     None \<Rightarrow> Inl NoRootfile
                   | Some rootfile \<Rightarrow>
                       (let fullPath = orEmpty (getAttribute rootfile (js ''full-path''))
                        in if fullPath = [] then Inl RootfilePathMissing
                           else Inr (loadedZip, fullPath)))))"

definition opfDirOf :: "jsstring \<Rightarrow> jsstring" where
  "opfDirOf fullPath = substring0 fullPath (lastIndexOf fullPath 0x2F + 1)"

subsection \<open>Parsing the manifest and the spine\<close>

definition addManifestNode :: "jsobject \<Rightarrow> node \<Rightarrow> jsobject" where
  "addManifestNode manifestItems n =
     (let i = orEmpty (getAttribute n (js ''id''));
          h = orEmpty (getAttribute n (js ''href''));
          m = orEmpty (getAttribute n (js ''media-type''));
          p = orEmpty (getAttribute n (js ''properties''))
      in if i \<noteq> [] \<and> h \<noteq> [] \<and> m \<noteq> []
         then setProp manifestItems i \<lparr>id' = i, href = h, mediaType = m, properties = p\<rparr>
         else manifestItems)"

definition parseManifest :: "node \<Rightarrow> jsobject" where
  "parseManifest opfDoc =
     foldl addManifestNode emptyObject
       (querySelectorAll opfDoc (Child (js ''manifest'') (js ''item'')))"

definition spineRefs :: "node \<Rightarrow> EpubSpineItem list" where
  "spineRefs opfDoc =
     map (\<lambda>n. \<lparr>idref = orEmpty (getAttribute n (js ''idref''))\<rparr>)
       (querySelectorAll opfDoc (Child (js ''spine'') (js ''itemref'')))"

definition parseSpine :: "jsobject \<Rightarrow> node \<Rightarrow> EpubSpineItem list" where
  "parseSpine manifestItems opfDoc =
     filter (\<lambda>item. idref item \<noteq> [] \<and> truthy (getProp manifestItems (idref item)))
       (spineRefs opfDoc)"

definition metadataText :: "node \<Rightarrow> jsstring \<Rightarrow> jsstring \<Rightarrow> jsstring" where
  "metadataText opfDoc tag dflt =
     (case querySelector opfDoc (Child (js ''metadata'') tag) of
        None \<Rightarrow> dflt
      | Some e \<Rightarrow> if textContent e = [] then dflt else textContent e)"

text \<open>Steps 1 and 2 together: what the main loop works on.\<close>

record opened =
  loadedZip :: zip
  opfDir :: jsstring
  bookTitle :: jsstring
  bookAuthor :: jsstring
  manifestItems :: jsobject
  spine :: "EpubSpineItem list"

definition openBook :: "env \<Rightarrow> File \<Rightarrow> progress list \<times> (error + opened)" where
  "openBook E file =
     (case resolveContainer E file of
        Inl e \<Rightarrow> ([(10, Unzipping)], Inl e)
      | Inr (z, fullPath) \<Rightarrow>
          (let calls = [(10, Unzipping), (20, ReadingMetadata)]
           in case z fullPath of
                None \<Rightarrow> (calls, Inl (OpfMissing fullPath))
              | Some Unreadable \<Rightarrow> (calls, Inl ZipError)
              | Some (Readable opfContent) \<Rightarrow>
                  (let opfDoc = parseFromString E ApplicationXml opfContent;
                       items = parseManifest opfDoc
                   in (calls,
                       Inr \<lparr>loadedZip = z, opfDir = opfDirOf fullPath,
                            bookTitle = metadataText opfDoc (js ''title'') (js ''Untitled''),
                            bookAuthor = metadataText opfDoc (js ''creator'') (js ''Unknown Author''),
                            manifestItems = items, spine = parseSpine items opfDoc\<rparr>))))"

subsection \<open>The main loop\<close>

definition DASHES :: jsstring where
  "DASHES = replicate 48 0x2D"

definition SEPARATOR :: jsstring where
  "SEPARATOR = [NL, NL] @ DASHES @ [NL, NL]"

definition progressPercent :: "env \<Rightarrow> nat \<Rightarrow> nat \<Rightarrow> int" where
  "progressPercent E i totalItems =
     30 + \<lfloor>fl E (fl E (of_nat i / of_nat totalItems) * 60) + 1 / 2\<rfloor>"

definition isNav :: "EpubManifestItem \<Rightarrow> bool" where
  "isNav item = (properties item \<noteq> [] \<and> includes' (properties item) (js ''nav''))"

definition isEarlyToc :: "nat \<Rightarrow> EpubManifestItem \<Rightarrow> bool" where
  "isEarlyToc i item =
     (let lowerHref = toLowerCase (href item);
          lowerId = toLowerCase (id' item);
          isEarly = i < 3
      in isEarly \<and> (includes' lowerHref (js ''toc'') \<or> includes' lowerHref (js ''contents'')
                    \<or> includes' lowerId (js ''toc'')))"

text \<open>
  What one pass of the loop body does with the value read from \<open>manifestItems\<close>, after its
  progress call: one of the three \<open>continue\<close> branches, each with the message it writes to
  the console; the text converted from the content document; or an exception. A value
  that is not an item has no \<open>properties\<close> and no \<open>href\<close>, so \<open>item.href.toLowerCase()\<close>
  throws a TypeError (on \<open>undefined\<close> the read of \<open>properties\<close> already does).
\<close>

datatype outcome =
    SkippedNav jsstring    \<comment> \<open>Skipping likely ToC (nav property): href\<close>
  | SkippedToc jsstring    \<comment> \<open>Skipping likely ToC (filename heuristic): href\<close>
  | MissingFile jsstring   \<comment> \<open>File missing from zip: decodedPath\<close>
  | Converted jsstring     \<comment> \<open>the result of extractTextFromHtml\<close>
  | Thrown error

definition itemOutcome :: "env \<Rightarrow> zip \<Rightarrow> jsstring \<Rightarrow> jsvalue \<Rightarrow> nat \<Rightarrow> outcome" where
  "itemOutcome E z dir v i =
     (case v of
        ItemObj item \<Rightarrow>
          if isNav item then SkippedNav (href item)
          else if isEarlyToc i item then SkippedToc (href item)
          else
            (let fileZipPath = dir @ href item
             in case decodeURIComponent fileZipPath of
                  Inl e \<Rightarrow> Thrown e
                | Inr decodedPath \<Rightarrow>
                    (case z decodedPath of
                       None \<Rightarrow> MissingFile decodedPath
                     | Some Unreadable \<Rightarrow> Thrown ZipError
                     | Some (Readable htmlContent) \<Rightarrow>
                         Converted (extractTextFromHtml (parseFromString E) htmlContent)))
      | _ \<Rightarrow> Thrown TypeError)"

fun appendText :: "jsstring \<Rightarrow> outcome \<Rightarrow> jsstring" where
  "appendText fullText (Converted t) =
     (if length (trim t) > 0 then fullText @ t @ SEPARATOR else fullText)"
| "appendText fullText oc = fullText"

definition outcomeAt :: "env \<Rightarrow> opened \<Rightarrow> nat \<Rightarrow> outcome" where
  "outcomeAt E bk i =
     (let item = getProp (manifestItems bk) (idref (spine bk ! i))
      in itemOutcome E (loadedZip bk) (opfDir bk) item i)"

function spineLoop ::
  "env \<Rightarrow> opened \<Rightarrow> nat \<Rightarrow> jsstring \<Rightarrow> progress list \<Rightarrow> progress list \<times> (error + jsstring)" where
  "spineLoop E bk i fullText calls =
     (let totalItems = length (spine bk) in
      if i < totalItems then
        (let calls' = calls @ [(progressPercent E i totalItems, ProcessingChapter (i + 1) totalItems)]
         in case outcomeAt E bk i of
              Thrown e \<Rightarrow> (calls', Inl e)
            | oc \<Rightarrow> spineLoop E bk (Suc i) (appendText fullText oc) calls')
      else (calls, Inr fullText))"
  by pat_completeness auto
termination
  by (relation "measure (\<lambda>(E, bk, i, t, l). length (spine bk) - i)") auto

declare spineLoop.simps [simp del]

subsection \<open>convertEpubToText\<close>

text \<open>
  The result is the list of progress calls made, in order, and either the exception that
  rejected the promise or the book it resolved to.
\<close>

definition convertEpubToText :: "env \<Rightarrow> File \<Rightarrow> progress list \<times> (error + ProcessedBook)" where
  "convertEpubToText E file =
     (case openBook E file of
        (calls, Inl e) \<Rightarrow> (calls, Inl e)
      | (calls, Inr bk) \<Rightarrow>
          (case spineLoop E bk 0 [] calls of
             (calls', Inl e) \<Rightarrow> (calls', Inl e)
           | (calls', Inr fullText) \<Rightarrow>
               (calls' @ [(100, Finalizing)],
                Inr \<lparr>filename = name file, title = bookTitle bk, author = bookAuthor bk,
                     content = trim fullText, size' = length fullText\<rparr>)))"

section \<open>Notions the properties are stated with\<close>

text \<open>
  The texts the loop appends, in order: those of the entries whose content document was
  converted to a text that is not blank.
\<close>

fun includedText :: "outcome \<Rightarrow> jsstring list" where
  "includedText (Converted t) = (if length (trim t) > 0 then [t] else [])"
| "includedText oc = []"

definition includedTexts :: "env \<Rightarrow> opened \<Rightarrow> jsstring list" where
  "includedTexts E bk = concat (map (\<lambda>i. includedText (outcomeAt E bk i)) [0..<length (spine bk)])"

text \<open>
  An entry that adds nothing and throws nothing: skipped by one of the two rules, missing
  from the archive, or converted to blank text.
\<close>

fun addsNothing :: "outcome \<Rightarrow> bool" where
  "addsNothing (SkippedNav h) = True"
| "addsNothing (SkippedToc h) = True"
| "addsNothing (MissingFile p) = True"
| "addsNothing (Converted t) = (trim t = [])"
| "addsNothing (Thrown e) = False"

text \<open>
  The properties attribute read as the spec words it: a set of space-separated tokens.
\<close>

definition propertyTokens :: "jsstring \<Rightarrow> jsstring list" where
  "propertyTokens s = filter (\<lambda>t. t \<noteq> []) (splitOn 0x20 s)"

section \<open>Example archives\<close>

text \<open>
  A parser and archives for the concrete runs below. The texts of the entries are short
  names; \<open>exParse\<close> gives the document each stands for. \<open>container\<close> is a container whose
  \<open>rootfile\<close> has the full-path \<open>OEBPS/content.opf\<close>; an \<open>opf\<close> text is a package with a
  title, a creator, manifest items and spine references; every other XML text is not
  well-formed and parses to an error document; an HTML text parses to a document with a
  head and a body.
\<close>

definition mkItem :: "string \<Rightarrow> string \<Rightarrow> string \<Rightarrow> node" where
  "mkItem i h p = Element (js ''item'')
     ([(js ''id'', js i), (js ''href'', js h), (js ''media-type'', js ''application/xhtml+xml'')]
      @ (if p = [] then [] else [(js ''properties'', js p)])) []"

definition mkOpf :: "node list \<Rightarrow> string list \<Rightarrow> node" where
  "mkOpf items refs = Element (js ''package'') []
     [Element (js ''metadata'') [] [Element (js ''title'') [] [Text (js ''Book'')],
                                    Element (js ''creator'') [] [Text (js ''Ann'')]],
      Element (js ''manifest'') [] items,
      Element (js ''spine'') [] (map (\<lambda>r. Element (js ''itemref'') [(js ''idref'', js r)] []) refs)]"

definition mkHtml :: "node list \<Rightarrow> node" where
  "mkHtml children = Element (js ''html'') []
     [Element (js ''head'') [] [Element (js ''title'') [] [Text (js ''T'')]],
      Element (js ''body'') [] children]"

definition containerDoc :: node where
  "containerDoc = Element (js ''container'') []
     [Element (js ''rootfiles'') []
        [Element (js ''rootfile'') [(js ''full-path'', js ''OEBPS/content.opf'')] []]]"

definition listDoc :: node where
  "listDoc = mkHtml [Element (js ''ul'') []
     [Element (js ''li'') [] [Text (js ''One'')], Element (js ''li'') [] [Text (js ''Two'')]]]"

definition blankParagraphDoc :: node where
  "blankParagraphDoc = mkHtml
     [Element (js ''p'') [] [Text (js ''a'')], Element (js ''p'') [] [Text (js '' '')],
      Element (js ''p'') [] [Text (js ''b'')]]"

definition exParse :: "mime \<Rightarrow> jsstring \<Rightarrow> node" where
  "exParse m s =
     (case m of
        ApplicationXml \<Rightarrow>
          if s = js ''container'' then containerDoc
          else if s = js ''opfAB'' then
            mkOpf [mkItem ''a'' ''a.html'' [], mkItem ''b'' ''b.html'' []] [''a'', ''b'']
          else if s = js ''opfPercent'' then
            mkOpf [mkItem ''a'' ''100%.html'' [], mkItem ''b'' ''b.html'' []] [''a'', ''b'']
          else if s = js ''opfConstructor'' then
            mkOpf [mkItem ''a'' ''a.html'' []] [''constructor'', ''a'']
          else if s = js ''opfOnlyPercent'' then
            mkOpf [mkItem ''a'' ''100%.html'' []] [''a'']
          else if s = js ''opfQuiet'' then
            mkOpf [mkItem ''n'' ''n.html'' ''nav cover-image'', mkItem ''m'' ''missing.html'' [],
                   mkItem ''e'' ''blank.html'' []] [''n'', ''m'', ''e'']
          else Element (js ''parsererror'') [] [Text (js ''error'')]
      | TextHtml \<Rightarrow>
          if s = js ''htmlA'' then mkHtml [Element (js ''p'') [] [Text (js ''A'')]]
          else if s = js ''htmlB'' then mkHtml [Element (js ''p'') [] [Text (js ''B'')]]
          else if s = js ''htmlList'' then listDoc
          else if s = js ''htmlBlank'' then blankParagraphDoc
          else mkHtml [])"

definition exZip :: "string \<Rightarrow> zip" where
  "exZip opf = [js ''META-INF/container.xml'' \<mapsto> Readable (js ''container''),
                js ''OEBPS/content.opf'' \<mapsto> Readable (js opf),
                js ''OEBPS/a.html'' \<mapsto> Readable (js ''htmlA''),
                js ''OEBPS/b.html'' \<mapsto> Readable (js ''htmlB''),
                js ''OEBPS/blank.html'' \<mapsto> Readable (js ''htmlEmpty'')]"

definition exZipBare :: "string \<Rightarrow> zip" where
  "exZipBare opf = [js ''META-INF/container.xml'' \<mapsto> Readable (js ''container''),
                    js ''OEBPS/content.opf'' \<mapsto> Readable (js opf)]"

definition exZipNoOpf :: zip where
  "exZipNoOpf = [js ''META-INF/container.xml'' \<mapsto> Readable (js ''container'')]"

definition exEnv :: "zip \<Rightarrow> env" where
  "exEnv z = \<lparr>loadAsync = (\<lambda>f. Some z), parseFromString = exParse, fl = (\<lambda>x. x)\<rparr>"

definition exFile :: File where
  "exFile = \<lparr>name = js ''book.epub'', bytes = []\<rparr>"

text \<open>What the runs on these archives open and return.\<close>

definition exItem :: "string \<Rightarrow> string \<Rightarrow> string \<Rightarrow> EpubManifestItem" where
  "exItem i h p =
     \<lparr>id' = js i, href = js h, mediaType = js ''application/xhtml+xml'', properties = js p\<rparr>"

definition openedAB :: opened where
  "openedAB =
     \<lparr>loadedZip = exZip ''opfAB'', opfDir = js ''OEBPS/'', bookTitle = js ''Book'',
      bookAuthor = js ''Ann'',
      manifestItems =
        \<lparr>own = [js ''a'' \<mapsto> exItem ''a'' ''a.html'' [], js ''b'' \<mapsto> exItem ''b'' ''b.html'' []],
         proto = None\<rparr>,
      spine = [\<lparr>idref = js ''a''\<rparr>, \<lparr>idref = js ''b''\<rparr>]\<rparr>"

definition callsAB :: "progress list" where
  "callsAB = [(10, Unzipping), (20, ReadingMetadata), (30, ProcessingChapter 1 2),
              (60, ProcessingChapter 2 2), (100, Finalizing)]"

definition bookAB :: ProcessedBook where
  "bookAB =
     \<lparr>filename = js ''book.epub'', title = js ''Book'', author = js ''Ann'',
      content = js ''A'' @ SEPARATOR @ js ''B'' @ [NL, NL] @ DASHES, size' = 106\<rparr>"

definition openedQuiet :: opened where
  "openedQuiet =
     \<lparr>loadedZip = exZip ''opfQuiet'', opfDir = js ''OEBPS/'', bookTitle = js ''Book'',
      bookAuthor = js ''Ann'',
      manifestItems =
        \<lparr>own = [js ''n'' \<mapsto> exItem ''n'' ''n.html'' ''nav cover-image'',
                js ''m'' \<mapsto> exItem ''m'' ''missing.html'' [],
                js ''e'' \<mapsto> exItem ''e'' ''blank.html'' []],
         proto = None\<rparr>,
      spine = [\<lparr>idref = js ''n''\<rparr>, \<lparr>idref = js ''m''\<rparr>, \<lparr>idref = js ''e''\<rparr>]\<rparr>"

definition bookUntitled :: ProcessedBook where
  "bookUntitled =
     \<lparr>filename = js ''book.epub'', title = js ''Untitled'', author = js ''Unknown Author'',
      content = [], size' = 0\<rparr>"

section \<open>Lemmas on strings\<close>

lemma trim_Nil: "trim [] = []"
  by (simp add: trim_def)

lemma isWhiteSpace_NL: "isWhiteSpace NL"
  by (simp add: isWhiteSpace_def NL_def)

text \<open>A string that starts and ends with other than whitespace is what is left of it
  when whitespace is appended and the whole is trimmed.\<close>

lemma trim_fixed:
  assumes "y \<noteq> []" "\<not> isWhiteSpace (hd y)" "\<not> isWhiteSpace (last y)" "\<forall>c\<in>set w. isWhiteSpace c"
  shows "trim (y @ w) = y"
proof -
  obtain a as where y: "y = a # as" using assms(1) by (cases y) auto
  have front: "dropWhile isWhiteSpace (y @ w) = y @ w"
    using assms(2) by (simp add: y)
  have "dropWhile isWhiteSpace (rev w @ rev y) = dropWhile isWhiteSpace (rev y)"
    using assms(4) by (simp add: dropWhile_append)
  also have "\<dots> = rev y"
    using assms(1,3) by (cases "rev y") (auto simp: last_rev hd_rev dest: arg_cong[where f=hd])
  finally show ?thesis
    by (simp add: trim_def front)
qed

lemma trim_ends:
  assumes "trim s \<noteq> []"
  shows "\<not> isWhiteSpace (hd (trim s))" and "\<not> isWhiteSpace (last (trim s))"
proof -
  let ?d = "dropWhile isWhiteSpace s"
  let ?r = "dropWhile isWhiteSpace (rev ?d)"
  have r: "?r \<noteq> []" using assms by (simp add: trim_def)
  then have "\<not> isWhiteSpace (hd ?r)" by (metis hd_dropWhile)
  then show "\<not> isWhiteSpace (last (trim s))"
    using r by (simp add: trim_def last_rev)
  have "\<exists>ws. rev ?d = ws @ ?r" by (metis takeWhile_dropWhile_id)
  then obtain ws where "rev ?d = ws @ ?r" ..
  then have d: "?d = rev ?r @ rev ws" by (metis rev_append rev_rev_ident)
  have "?d \<noteq> []" by (metis r dropWhile.simps(1) rev.simps(1))
  then have "\<not> isWhiteSpace (hd ?d)" by (metis hd_dropWhile)
  moreover have "hd ?d = hd (rev ?r)" using d r by (metis hd_append2 rev_is_Nil_conv)
  ultimately show "\<not> isWhiteSpace (hd (trim s))" by (simp add: trim_def)
qed

lemma trim_trim: "trim (trim s) = trim s"
proof (cases "trim s = []")
  case True
  then show ?thesis by (metis trim_Nil)
next
  case False
  then show ?thesis using trim_fixed[of "trim s" "[]"] trim_ends[of s] by simp
qed

lemma includes'_iff: "includes' s sub \<longleftrightarrow> sublist sub s"
  by (induction s) (auto simp: sublist_Cons_right)

lemma splitOn_hd: "splitOn c s \<noteq> [] \<and> prefix (hd (splitOn c s)) s"
  by (induction s) (auto split: list.splits)

lemma splitOn_sublist: "t \<in> set (splitOn c s) \<Longrightarrow> sublist t s"
proof (induction s arbitrary: t)
  case Nil
  then show ?case by simp
next
  case (Cons x xs)
  show ?case
  proof (cases "x = c")
    case True
    with Cons show ?thesis by (auto simp: sublist_Cons_right)
  next
    case False
    obtain l ls where sp: "splitOn c xs = l # ls"
      using splitOn_hd[of c xs] by (cases "splitOn c xs") auto
    with splitOn_hd[of c xs] have pl: "prefix l xs" by simp
    from Cons.prems False sp have "t = x # l \<or> t \<in> set ls" by simp
    then show ?thesis
    proof
      assume "t = x # l"
      with pl show ?thesis by (simp add: sublist_Cons_right)
    next
      assume "t \<in> set ls"
      with sp Cons.IH have "sublist t xs" by simp
      then show ?thesis by (simp add: sublist_Cons_right)
    qed
  qed
qed

text \<open>The only exception of \<open>decodeURIComponent\<close> is URIError.\<close>

lemma decodeFrom_error: "decodeFrom k os s = Inl e \<Longrightarrow> e = URIError"
proof (induction k os s rule: decodeFrom.induct)
  case (1 k octets)
  then show ?case by (simp split: if_splits)
next
  case (2 k octets c cs)
  show ?case
  proof (cases "c \<noteq> 0x25")
    case True
    with 2 show ?thesis
      by (cases "decodeFrom 0 [] cs") (auto split: if_splits)
  next
    case False
    show ?thesis
    proof (cases "\<exists>h1 h2 rest. cs = h1 # h2 # rest")
      case short: False
      with "2.prems" False show ?thesis
        by (auto split: list.splits)
    next
      case True
      then obtain h1 h2 rest where cs: "cs = h1 # h2 # rest" by blast
      show ?thesis
      proof (cases "parseHexOctet h1 h2")
        case None
        with "2.prems" False cs show ?thesis by simp
      next
        case (Some b)
        show ?thesis
        proof (cases "k = 0")
          case True
          with 2 False cs Some show ?thesis
            by (cases "decodeFrom 0 [] rest") (auto simp: Let_def split: if_splits)
        next
          case k: False
          show ?thesis
          proof (cases "k = 1")
            case True
            with 2 \<open>\<not> c \<noteq> 0x25\<close> cs Some k show ?thesis
              by (cases "decodeFrom 0 [] rest") (auto split: if_splits option.splits)
          next
            case False
            with 2 \<open>\<not> c \<noteq> 0x25\<close> cs Some k show ?thesis by auto
          qed
        qed
      qed
    qed
  qed
qed

section \<open>Lemmas on lines\<close>

lemma splitOn_ne: "splitOn c s \<noteq> []"
  by (induction s) (auto split: list.splits)

lemma splitOn_no_sep: "l \<in> set (splitOn c s) \<Longrightarrow> c \<notin> set l"
proof (induction s arbitrary: l)
  case Nil
  then show ?case by simp
next
  case (Cons x xs)
  then show ?case
    by (cases "splitOn c xs") (auto split: if_splits simp: splitOn_ne)
qed

lemma splitOn_snoc:
  "splitOn c (s @ [x]) =
     (if x = c then splitOn c s @ [[]]
      else butlast (splitOn c s) @ [last (splitOn c s) @ [x]])"
proof (induction s)
  case Nil
  then show ?case by simp
next
  case (Cons y ys)
  obtain l ls where sp: "splitOn c ys = l # ls"
    using splitOn_ne[of c ys] by (cases "splitOn c ys") auto
  show ?case
    using Cons sp by (cases ls) (auto split: list.splits)
qed

lemma splitOn_rev: "splitOn c (rev s) = rev (map rev (splitOn c s))"
proof (induction s)
  case Nil
  then show ?case by simp
next
  case (Cons x xs)
  obtain l ls where sp: "splitOn c xs = l # ls"
    using splitOn_ne[of c xs] by (cases "splitOn c xs") auto
  show ?case
    using Cons sp by (simp add: splitOn_snoc)
qed

lemma splitOn_line: "c \<notin> set l \<Longrightarrow> splitOn c (l @ c # rest) = l # splitOn c rest"
  by (induction l) auto

lemma splitOn_single: "c \<notin> set l \<Longrightarrow> splitOn c l = [l]"
  by (induction l) auto

lemma splitOn_join:
  "ls \<noteq> [] \<Longrightarrow> \<forall>l\<in>set ls. NL \<notin> set l \<Longrightarrow> splitOn NL (join_nl ls) = ls"
proof (induction ls rule: join_nl.induct)
  case 1
  then show ?case by simp
next
  case (2 l)
  then show ?case by (simp add: splitOn_single)
next
  case (3 l v va)
  then show ?case by (simp add: splitOn_line)
qed

lemma set_trim: "set (trim l) \<subseteq> set l"
proof -
  have "set (trim l) \<subseteq> set (dropWhile isWhiteSpace l)"
    unfolding trim_def using set_dropWhileD[of _ isWhiteSpace "rev (dropWhile isWhiteSpace l)"]
    by auto
  then show ?thesis
    using set_dropWhileD[of _ isWhiteSpace l] by blast
qed

text \<open>A line is trimmed when it is empty or starts and ends with other than whitespace.\<close>

lemma trim_id_iff: "trim l = l \<longleftrightarrow> l = [] \<or> (\<not> isWhiteSpace (hd l) \<and> \<not> isWhiteSpace (last l))"
proof
  assume t: "trim l = l"
  show "l = [] \<or> (\<not> isWhiteSpace (hd l) \<and> \<not> isWhiteSpace (last l))"
  proof (cases "l = []")
    case False
    with t trim_ends[of l] show ?thesis by simp
  qed simp
next
  assume a: "l = [] \<or> (\<not> isWhiteSpace (hd l) \<and> \<not> isWhiteSpace (last l))"
  show "trim l = l"
  proof (cases "l = []")
    case True
    then show ?thesis by (simp add: trim_Nil)
  next
    case False
    with a trim_fixed[of l "[]"] show ?thesis by simp
  qed
qed

lemma trim_id_rev: "trim (rev l) = rev l \<longleftrightarrow> trim l = l"
  by (auto simp: trim_id_iff hd_rev last_rev)

lemma lines_dropWhile:
  "\<forall>l\<in>set (splitOn NL s). trim l = l \<Longrightarrow>
   \<forall>l\<in>set (splitOn NL (dropWhile isWhiteSpace s)). trim l = l"
proof (induction s)
  case Nil
  then show ?case by simp
next
  case (Cons c cs)
  show ?case
  proof (cases "isWhiteSpace c")
    case False
    with Cons.prems show ?thesis by simp
  next
    case True
    show ?thesis
    proof (cases "c = NL")
      case nl: True
      with Cons True show ?thesis by simp
    next
      case False
      obtain l ls where sp: "splitOn NL cs = l # ls"
        using splitOn_ne[of NL cs] by (cases "splitOn NL cs") auto
      with False Cons.prems have "trim (c # l) = c # l" by simp
      with True show ?thesis by (simp add: trim_id_iff)
    qed
  qed
qed

lemma lines_trim:
  assumes "\<forall>l\<in>set (splitOn NL s). trim l = l"
  shows "\<forall>l\<in>set (splitOn NL (trim s)). trim l = l"
proof -
  let ?d = "dropWhile isWhiteSpace s"
  have d: "\<forall>l\<in>set (splitOn NL ?d). trim l = l"
    using assms by (rule lines_dropWhile)
  then have "\<forall>l\<in>set (splitOn NL (rev ?d)). trim l = l"
    by (auto simp: splitOn_rev trim_id_rev)
  then have "\<forall>l\<in>set (splitOn NL (dropWhile isWhiteSpace (rev ?d))). trim l = l"
    by (rule lines_dropWhile)
  then have "\<forall>l\<in>set (splitOn NL (rev (dropWhile isWhiteSpace (rev ?d)))). trim l = l"
    by (auto simp: splitOn_rev trim_id_rev)
  then show ?thesis by (simp add: trim_def)
qed

lemma lines_normalize: "\<forall>l\<in>set (splitOn NL (normalize s)). trim l = l"
proof -
  let ?ls = "map trim (splitOn NL (collapseNewlines s))"
  have ne: "?ls \<noteq> []" by (simp add: splitOn_ne)
  have "\<forall>l\<in>set ?ls. NL \<notin> set l"
    using splitOn_no_sep set_trim by fastforce
  then have "splitOn NL (join_nl ?ls) = ?ls"
    using ne by (rule splitOn_join[rotated])
  then have "\<forall>l\<in>set (splitOn NL (join_nl ?ls)). trim l = l"
    by (auto simp: trim_trim)
  then show ?thesis
    unfolding normalize_def by (rule lines_trim)
qed

section \<open>Lemmas on the converter and the loop\<close>

lemma extract_trimmed: "trim (extractTextFromHtml P h) = extractTextFromHtml P h"
  by (simp add: extractTextFromHtml_def normalize_def Let_def trim_trim)

lemma itemOutcome_Converted:
  "itemOutcome E z d v i = Converted t \<Longrightarrow> trim t = t"
  by (auto simp: itemOutcome_def Let_def extract_trimmed
           split: jsvalue.splits if_splits sum.splits option.splits entry.splits)

lemma itemOutcome_Thrown:
  "itemOutcome E z d v i = Thrown e \<Longrightarrow> e = URIError \<or> e = TypeError \<or> e = ZipError"
  by (auto simp: itemOutcome_def Let_def decodeURIComponent_def dest: decodeFrom_error
           split: jsvalue.splits if_splits sum.splits option.splits entry.splits)

lemma itemOutcome_SkippedNav:
  "itemOutcome E z dir (ItemObj item) i = SkippedNav h \<longleftrightarrow> isNav item \<and> h = href item"
  by (auto simp: itemOutcome_def Let_def split: sum.splits option.splits entry.splits)

lemma nav_ne: "js ''nav'' \<noteq> []"
  by (simp add: js_def)

lemma isNav_iff: "isNav item \<longleftrightarrow> (\<exists>pre post. properties item = pre @ js ''nav'' @ post)"
proof -
  have "isNav item \<longleftrightarrow> includes' (properties item) (js ''nav'')"
    using nav_ne by (cases "properties item") (auto simp: isNav_def)
  then show ?thesis by (simp add: includes'_iff sublist_def)
qed

lemma includedText_trimmed:
  assumes "t \<in> set (includedText (outcomeAt E bk j))"
  shows "t \<noteq> [] \<and> \<not> isWhiteSpace (hd t)"
proof -
  from assms have oc: "outcomeAt E bk j = Converted t" and ne: "trim t \<noteq> []"
    by (cases "outcomeAt E bk j"; auto split: if_splits)+
  from oc have "trim t = t"
    by (simp add: outcomeAt_def Let_def itemOutcome_Converted)
  with ne trim_ends(1)[of t] show ?thesis by simp
qed

lemma appendText_eq:
  "appendText ft oc = ft @ concat (map (\<lambda>t. t @ SEPARATOR) (includedText oc))"
  by (cases oc) auto

lemma appendText_addsNothing: "addsNothing oc \<Longrightarrow> appendText ft oc = ft"
  by (cases oc) auto

text \<open>One pass of the loop that does not throw goes on with the next index.\<close>

lemma spineLoop_step:
  assumes "i < length (spine bk)" and "\<forall>e. outcomeAt E bk i \<noteq> Thrown e"
  shows "spineLoop E bk i ft calls =
         spineLoop E bk (Suc i) (appendText ft (outcomeAt E bk i))
           (calls @ [(progressPercent E i (length (spine bk)),
                      ProcessingChapter (i + 1) (length (spine bk)))])"
  using assms by (simp add: spineLoop.simps[of E bk i] Let_def split: outcome.splits)

lemma spineLoop_throw:
  assumes "i < length (spine bk)" and "outcomeAt E bk i = Thrown e"
  shows "spineLoop E bk i ft calls =
         (calls @ [(progressPercent E i (length (spine bk)),
                    ProcessingChapter (i + 1) (length (spine bk)))], Inl e)"
  using assms by (simp add: spineLoop.simps[of E bk i] Let_def)

lemma spineLoop_done:
  assumes "\<not> i < length (spine bk)"
  shows "spineLoop E bk i ft calls = (calls, Inr ft)"
  using assms by (simp add: spineLoop.simps[of E bk i])

text \<open>The aggregate at the end of the loop: each included text, followed by the separator.\<close>

lemma spineLoop_text:
  "spineLoop E bk i ft calls = (calls', Inr ft') \<Longrightarrow>
   ft' = ft @ concat (map (\<lambda>t. t @ SEPARATOR)
                (concat (map (\<lambda>j. includedText (outcomeAt E bk j)) [i..<length (spine bk)])))"
proof (induction E bk i ft calls rule: spineLoop.induct)
  case (1 E bk i fullText calls)
  show ?case
  proof (cases "i < length (spine bk)")
    case False
    with "1.prems" show ?thesis
      by (simp add: spineLoop_done)
  next
    case True
    let ?oc = "outcomeAt E bk i"
    have notThrown: "\<forall>e. ?oc \<noteq> Thrown e"
      using "1.prems" True by (auto simp: spineLoop_throw)
    have "ft' = appendText fullText ?oc @ concat (map (\<lambda>t. t @ SEPARATOR)
                (concat (map (\<lambda>j. includedText (outcomeAt E bk j)) [Suc i..<length (spine bk)])))"
      using "1.IH" notThrown True "1.prems" spineLoop_step[OF True notThrown, of fullText calls]
      by (cases ?oc) (auto simp: Let_def)
    then show ?thesis
      using True by (simp add: appendText_eq upt_conv_Cons)
  qed
qed

lemma spineLoop_addsNothing:
  "\<forall>j. i \<le> j \<and> j < length (spine bk) \<longrightarrow> addsNothing (outcomeAt E bk j) \<Longrightarrow>
   \<exists>c. spineLoop E bk i ft calls = (c, Inr ft)"
proof (induction E bk i ft calls rule: spineLoop.induct)
  case (1 E bk i fullText calls)
  show ?case
  proof (cases "i < length (spine bk)")
    case False
    then show ?thesis by (simp add: spineLoop_done)
  next
    case True
    let ?oc = "outcomeAt E bk i"
    have an: "addsNothing ?oc" using "1.prems" True by simp
    then have nt: "\<forall>e. ?oc \<noteq> Thrown e" by auto
    have rest: "\<forall>j. Suc i \<le> j \<and> j < length (spine bk) \<longrightarrow> addsNothing (outcomeAt E bk j)"
      using "1.prems" by simp
    have "\<exists>c. spineLoop E bk i fullText calls = (c, Inr (appendText fullText ?oc))"
      using "1.IH" nt True rest spineLoop_step[OF True nt, of fullText calls]
      by (cases ?oc) (auto simp: Let_def)
    then show ?thesis
      using an by (simp add: appendText_addsNothing)
  qed
qed

lemma spineLoop_error:
  "spineLoop E bk i ft calls = (calls', Inl e) \<Longrightarrow> e = URIError \<or> e = TypeError \<or> e = ZipError"
proof (induction E bk i ft calls rule: spineLoop.induct)
  case (1 E bk i fullText calls)
  show ?case
  proof (cases "i < length (spine bk)")
    case False
    with "1.prems" show ?thesis by (simp add: spineLoop_done)
  next
    case True
    let ?oc = "outcomeAt E bk i"
    show ?thesis
    proof (cases "\<exists>e'. ?oc = Thrown e'")
      case thrown: True
      then obtain e' where e': "?oc = Thrown e'" ..
      with True "1.prems" have "e = e'"
        by (simp add: spineLoop_throw)
      with e' show ?thesis
        by (auto simp: outcomeAt_def Let_def dest: itemOutcome_Thrown)
    next
      case False
      then have nt: "\<forall>e. ?oc \<noteq> Thrown e" by simp
      show ?thesis
        using "1.IH" nt True "1.prems" spineLoop_step[OF True nt, of fullText calls]
        by (cases ?oc) (auto simp: Let_def)
    qed
  qed
qed

text \<open>The progress calls of the loop: one per index, up to where it stops.\<close>

lemma spineLoop_calls:
  "spineLoop E bk i ft calls = (calls', r) \<Longrightarrow>
   \<exists>k\<le>length (spine bk). map fst calls' =
      map fst calls @ map (\<lambda>j. progressPercent E j (length (spine bk))) [i..<k]"
proof (induction E bk i ft calls rule: spineLoop.induct)
  case (1 E bk i fullText calls)
  let ?n = "length (spine bk)"
  show ?case
  proof (cases "i < ?n")
    case False
    with "1.prems" have "calls' = calls"
      by (simp add: spineLoop_done)
    then show ?thesis by (intro exI[of _ 0]) simp
  next
    case True
    let ?oc = "outcomeAt E bk i"
    let ?calls = "calls @ [(progressPercent E i ?n, ProcessingChapter (i + 1) ?n)]"
    show ?thesis
    proof (cases "\<exists>e. ?oc = Thrown e")
      case thrown: True
      with True "1.prems" have "calls' = ?calls"
        by (auto simp: spineLoop_throw)
      with True show ?thesis
        by (intro exI[of _ "Suc i"]) simp
    next
      case False
      then have nt: "\<forall>e. ?oc \<noteq> Thrown e" by simp
      have "\<exists>k\<le>?n. map fst calls' = map fst ?calls @ map (\<lambda>j. progressPercent E j ?n) [Suc i..<k]"
        using "1.IH" nt True "1.prems" spineLoop_step[OF True nt, of fullText calls]
        by (cases ?oc) (auto simp: Let_def)
      then obtain k where k: "k \<le> ?n"
        and eq: "map fst calls' = map fst ?calls @ map (\<lambda>j. progressPercent E j ?n) [Suc i..<k]"
        by blast
      show ?thesis
      proof (cases "Suc i \<le> k")
        case le: True
        then have "[i..<k] = i # [Suc i..<k]" by (simp add: upt_conv_Cons)
        with eq k show ?thesis by (intro exI[of _ k]) simp
      next
        case gt: False
        with eq True show ?thesis by (intro exI[of _ "Suc i"]) simp
      qed
    qed
  qed
qed

text \<open>
  Trimming the aggregate removes the two newlines that end the last separator, and
  nothing else: every included text starts with other than whitespace, and the dashes of
  the last separator are not whitespace.
\<close>

lemma trim_chapters:
  assumes "ts \<noteq> []" and "\<forall>t\<in>set ts. t \<noteq> [] \<and> \<not> isWhiteSpace (hd t)"
  shows "trim (concat (map (\<lambda>t. t @ SEPARATOR) ts)) =
         concat (map (\<lambda>t. t @ SEPARATOR) (butlast ts)) @ last ts @ [NL, NL] @ DASHES"
proof -
  let ?y = "concat (map (\<lambda>t. t @ SEPARATOR) (butlast ts)) @ last ts @ [NL, NL] @ DASHES"
  have split: "ts = butlast ts @ [last ts]" using assms(1) by simp
  have "concat (map (\<lambda>t. t @ SEPARATOR) ts) = concat (map (\<lambda>t. t @ SEPARATOR) (butlast ts @ [last ts]))"
    using split by simp
  then have whole: "concat (map (\<lambda>t. t @ SEPARATOR) ts) = ?y @ [NL, NL]"
    by (simp add: SEPARATOR_def)
  have lastne: "last ts \<noteq> []" and lasthd: "\<not> isWhiteSpace (hd (last ts))"
    using assms by (simp_all add: last_in_set)
  have ne: "?y \<noteq> []" using lastne by simp
  have hd: "\<not> isWhiteSpace (hd ?y)"
  proof (cases "butlast ts")
    case Nil
    then show ?thesis using lastne lasthd by simp
  next
    case (Cons b bs)
    then have "b \<in> set ts" by (metis in_set_butlastD list.set_intros(1))
    then have "b \<noteq> []" "\<not> isWhiteSpace (hd b)" using assms(2) by auto
    then show ?thesis using Cons by simp
  qed
  have "last ?y = 0x2D" by (simp add: DASHES_def)
  then have last: "\<not> isWhiteSpace (last ?y)" by (simp add: isWhiteSpace_def)
  have "trim (?y @ [NL, NL]) = ?y"
    by (rule trim_fixed[OF ne hd last]) (simp add: isWhiteSpace_NL)
  with whole show ?thesis by simp
qed

lemma includedTexts_trimmed:
  "\<forall>t\<in>set (includedTexts E bk). t \<noteq> [] \<and> \<not> isWhiteSpace (hd t)"
  by (auto simp: includedTexts_def dest: includedText_trimmed)

lemma convert_Inr:
  assumes "convertEpubToText E file = (calls', Inr book)"
  shows "\<exists>calls bk c ft. openBook E file = (calls, Inr bk) \<and> spineLoop E bk 0 [] calls = (c, Inr ft)
           \<and> calls' = c @ [(100, Finalizing)] \<and> content book = trim ft \<and> size' book = length ft"
  using assms
  by (auto simp: convertEpubToText_def split: prod.splits sum.splits)

lemma openBook_calls:
  "openBook E file = (calls, r) \<Longrightarrow>
   (calls = [(10, Unzipping)] \<and> isl r) \<or> calls = [(10, Unzipping), (20, ReadingMetadata)]"
  by (auto simp: openBook_def Let_def split: sum.splits prod.splits option.splits entry.splits)

lemma getProp_own_iff:
  assumes "proto m = None" and "k \<notin> set (js ''__proto__'' # objectPrototypeNames)"
  shows "truthy (getProp m k) \<longleftrightarrow> k \<in> dom (own m)"
  using assms by (auto simp: getProp_def getInherited_def split: option.splits)

text \<open>A loop in which no pass throws runs to its end, and conversely.\<close>

lemma spineLoop_returns_iff:
  "(\<exists>c ft'. spineLoop E bk i ft calls = (c, Inr ft'))
     \<longleftrightarrow> (\<forall>j. i \<le> j \<and> j < length (spine bk) \<longrightarrow> (\<forall>e. outcomeAt E bk j \<noteq> Thrown e))"
proof (induction E bk i ft calls rule: spineLoop.induct)
  case (1 E bk i fullText calls)
  show ?case
  proof (cases "i < length (spine bk)")
    case False
    then have "\<forall>j. i \<le> j \<and> j < length (spine bk) \<longrightarrow> (\<forall>e. outcomeAt E bk j \<noteq> Thrown e)"
      by auto
    with False show ?thesis by (simp add: spineLoop_done)
  next
    case True
    let ?oc = "outcomeAt E bk i"
    show ?thesis
    proof (cases "\<exists>e. ?oc = Thrown e")
      case thrown: True
      then obtain e where "?oc = Thrown e" ..
      with True show ?thesis
        by (auto simp: spineLoop_throw)
    next
      case False
      then have nt: "\<forall>e. ?oc \<noteq> Thrown e" by simp
      have split: "(\<forall>j. i \<le> j \<and> j < length (spine bk) \<longrightarrow> (\<forall>e. outcomeAt E bk j \<noteq> Thrown e))
         \<longleftrightarrow> (\<forall>j. Suc i \<le> j \<and> j < length (spine bk) \<longrightarrow> (\<forall>e. outcomeAt E bk j \<noteq> Thrown e))"
        using nt by (metis Suc_leI le_neq_implies_less Suc_leD)
      have "(\<exists>c ft'. spineLoop E bk i fullText calls = (c, Inr ft'))
         \<longleftrightarrow> (\<forall>j. Suc i \<le> j \<and> j < length (spine bk) \<longrightarrow> (\<forall>e. outcomeAt E bk j \<noteq> Thrown e))"
        using "1.IH" nt True spineLoop_step[OF True nt, of fullText calls]
        by (cases ?oc) (auto simp: Let_def)
      with split show ?thesis by simp
    qed
  qed
qed

section \<open>Lemmas on the progress percentages\<close>

lemma progressPercent_mono:
  assumes "mono (fl E)" "i \<le> j"
  shows "progressPercent E i n \<le> progressPercent E j n"
proof -
  have "(of_nat i :: rat) / of_nat n \<le> of_nat j / of_nat n"
    using assms(2) by (simp add: divide_right_mono)
  then have "fl E (of_nat i / of_nat n) * 60 \<le> fl E (of_nat j / of_nat n) * 60"
    using assms(1) by (simp add: monoD)
  then have "fl E (fl E (of_nat i / of_nat n) * 60) \<le> fl E (fl E (of_nat j / of_nat n) * 60)"
    using assms(1) by (rule monoD[rotated])
  then show ?thesis
    unfolding progressPercent_def by (simp add: floor_mono)
qed

lemma progressPercent_bounds:
  assumes "mono (fl E)" "fl E 0 = 0" "fl E 1 = 1" "fl E 60 = 60" "i < n"
  shows "30 \<le> progressPercent E i n" and "progressPercent E i n \<le> 90"
proof -
  let ?q = "(of_nat i :: rat) / of_nat n"
  have q: "0 \<le> ?q" "?q \<le> 1" using assms(5) by simp_all
  have "fl E 0 \<le> fl E ?q" "fl E ?q \<le> fl E 1"
    using q assms(1) by (auto intro: monoD)
  then have x: "0 \<le> fl E ?q * 60" "fl E ?q * 60 \<le> 60"
    using assms(2,3) by simp_all
  have "fl E 0 \<le> fl E (fl E ?q * 60)" "fl E (fl E ?q * 60) \<le> fl E 60"
    using x assms(1) by (auto intro: monoD)
  then have y: "0 \<le> fl E (fl E ?q * 60)" "fl E (fl E ?q * 60) \<le> 60"
    using assms(2,4) by simp_all
  have "0 \<le> \<lfloor>fl E (fl E ?q * 60) + 1 / 2\<rfloor>"
    using y(1) by simp
  moreover have "\<lfloor>fl E (fl E ?q * 60) + 1 / 2\<rfloor> \<le> 60"
    using y(2) by (simp add: floor_le_iff)
  ultimately show "30 \<le> progressPercent E i n" and "progressPercent E i n \<le> 90"
    unfolding progressPercent_def by simp_all
qed

lemma sorted_percentages:
  assumes "mono (fl E)" "fl E 0 = 0" "fl E 1 = 1" "fl E 60 = 60" "k \<le> n"
  shows "sorted ([10, 20] @ map (\<lambda>j. progressPercent E j n) [0..<k] @ [100])"
proof -
  have mid: "sorted (map (\<lambda>j. progressPercent E j n) [0..<k])"
    using assms(1) by (auto simp: sorted_iff_nth_mono intro: progressPercent_mono)
  have b: "\<forall>p\<in>set (map (\<lambda>j. progressPercent E j n) [0..<k]). 30 \<le> p \<and> p \<le> 90"
    using progressPercent_bounds[OF assms(1-4)] assms(5) by auto
  show ?thesis
    using mid b by (fastforce simp: sorted_append)
qed

lemma sorted_front: "sorted (xs @ ys) \<Longrightarrow> sorted (xs :: int list)"
  by (simp add: sorted_append)

section \<open>The runs on the example archives\<close>

lemma resolve_ex:
  "resolveContainer (exEnv (exZip opf)) exFile = Inr (exZip opf, js ''OEBPS/content.opf'')"
  by (simp add: resolveContainer_def exEnv_def exZip_def exParse_def containerDoc_def
      querySelector_def querySelectorAll_def orEmpty_def js_def Let_def)

lemma resolve_noOpf:
  "resolveContainer (exEnv exZipNoOpf) exFile = Inr (exZipNoOpf, js ''OEBPS/content.opf'')"
  by (simp add: resolveContainer_def exEnv_def exZipNoOpf_def exParse_def containerDoc_def
      querySelector_def querySelectorAll_def orEmpty_def js_def Let_def)

lemma open_AB:
  "openBook (exEnv (exZip ''opfAB'')) exFile =
     ([(10, Unzipping), (20, ReadingMetadata)], Inr openedAB)"
  apply (simp add: openBook_def resolve_ex Let_def)
  apply (simp add: exZip_def js_def)
  apply (simp add: openedAB_def exEnv_def exParse_def mkOpf_def mkItem_def metadataText_def
      parseManifest_def parseSpine_def spineRefs_def addManifestNode_def setProp_def getProp_def
      querySelector_def querySelectorAll_def orEmpty_def emptyObject_def exItem_def exZip_def
      js_def Let_def opfDirOf_def substring0_def)
  done

lemma open_Quiet:
  "openBook (exEnv (exZip ''opfQuiet'')) exFile =
     ([(10, Unzipping), (20, ReadingMetadata)], Inr openedQuiet)"
  apply (simp add: openBook_def resolve_ex Let_def)
  apply (simp add: exZip_def js_def)
  apply (simp add: openedQuiet_def exEnv_def exParse_def mkOpf_def mkItem_def metadataText_def
      parseManifest_def parseSpine_def spineRefs_def addManifestNode_def setProp_def getProp_def
      querySelector_def querySelectorAll_def orEmpty_def emptyObject_def exItem_def exZip_def
      js_def Let_def opfDirOf_def substring0_def)
  done

lemma texts_AB: "includedTexts (exEnv (exZip ''opfAB'')) openedAB = [js ''A'', js ''B'']"
  by code_simp

lemma convert_AB: "convertEpubToText (exEnv (exZip ''opfAB'')) exFile = (callsAB, Inr bookAB)"
  by code_simp

lemma outcomes_Quiet:
  "map (outcomeAt (exEnv (exZip ''opfQuiet'')) openedQuiet) [0, 1, 2] =
     [SkippedNav (js ''n.html''), MissingFile (js ''OEBPS/missing.html''), Converted []]"
  by code_simp

lemma outcomes_AB:
  "map (outcomeAt (exEnv (exZip ''opfAB'')) openedAB) [0, 1] = [Converted (js ''A''), Converted (js ''B'')]"
  by code_simp

lemma mono_exEnv: "mono (fl (exEnv z))"
  by (simp add: exEnv_def mono_def)

section \<open>The claims\<close>

subsection \<open>C1: the content for two included chapters\<close>

text \<open>
  C1 as stated fails. On the archive whose spine is the two chapters converting to \<open>A\<close> and
  \<open>B\<close>, the content is not \<open>A\<close>, the separator, \<open>B\<close>: the loop appends the separator after
  every included text, the last one too, and trimming removes only the two newlines that
  end it, so the content ends with the line of dashes.
\<close>

theorem two_chapters_counterexample:
  "includedTexts (exEnv (exZip ''opfAB'')) openedAB = [js ''A'', js ''B'']
   \<and> snd (convertEpubToText (exEnv (exZip ''opfAB'')) exFile) = Inr bookAB
   \<and> content bookAB = js ''A'' @ SEPARATOR @ js ''B'' @ [NL, NL] @ DASHES
   \<and> content bookAB \<noteq> js ''A'' @ SEPARATOR @ js ''B''"
proof -
  have "content bookAB = js ''A'' @ SEPARATOR @ js ''B'' @ [NL, NL] @ DASHES"
    by (simp add: bookAB_def)
  moreover have "content bookAB \<noteq> js ''A'' @ SEPARATOR @ js ''B''"
    by (simp add: bookAB_def DASHES_def)
  ultimately show ?thesis
    using texts_AB convert_AB by simp
qed

text \<open>
  C1, amended: for a conversion that returns a book and whose retained spine yields
  exactly two included, non-blank chapters converting to the texts \<open>A\<close> and \<open>B\<close>, the content
  is \<open>A\<close>, the separator, \<open>B\<close>, a blank line and the line of dashes: each included chapter,
  the last one too, is followed by the separator, of which trimming removes only the
  final blank line; nothing precedes \<open>A\<close>.
\<close>

theorem two_chapters_content:
  assumes "openBook E file = (calls, Inr bk)"
    and "includedTexts E bk = [A, B]"
    and "convertEpubToText E file = (calls', Inr book)"
  shows "content book = A @ SEPARATOR @ B @ [NL, NL] @ DASHES"
proof -
  from convert_Inr[OF assms(3)] assms(1) obtain c ft where
    loop: "spineLoop E bk 0 [] calls = (c, Inr ft)" and cont: "content book = trim ft"
    by auto
  have ft: "ft = concat (map (\<lambda>t. t @ SEPARATOR) [A, B])"
    using spineLoop_text[OF loop] assms(2) by (simp add: includedTexts_def)
  have "\<forall>t\<in>set [A, B]. t \<noteq> [] \<and> \<not> isWhiteSpace (hd t)"
    using includedTexts_trimmed[of E bk] assms(2) by simp
  from trim_chapters[OF _ this] show ?thesis
    by (simp add: cont ft)
qed

theorem two_chapters_content_witness:
  "openBook (exEnv (exZip ''opfAB'')) exFile = ([(10, Unzipping), (20, ReadingMetadata)], Inr openedAB)
   \<and> includedTexts (exEnv (exZip ''opfAB'')) openedAB = [js ''A'', js ''B'']
   \<and> convertEpubToText (exEnv (exZip ''opfAB'')) exFile = (callsAB, Inr bookAB)
   \<and> content bookAB = js ''A'' @ SEPARATOR @ js ''B'' @ [NL, NL] @ DASHES"
proof -
  note t = two_chapters_content[OF open_AB texts_AB convert_AB]
  show ?thesis
    by (intro conjI) (rule open_AB texts_AB convert_AB t)+
qed

subsection \<open>C2: a list of two items\<close>

text \<open>
  C2: for the body \<open><ul><li>One</li><li>Two</li></ul>\<close> the converter is claimed to return
  the two bulleted items on two lines. The code returns them on one line: in the chain
  of conditions that sets prefix and suffix, the branch for \<open>li\<close> sets the bullet and
  nothing else, so the newline of the other block elements is not set for it.
\<close>

theorem list_items_run_together:
  "exParse TextHtml (js ''htmlList'') = listDoc
   \<and> extractTextFromHtml exParse (js ''htmlList'') = BULLET @ js ''One'' @ BULLET @ js ''Two''
   \<and> extractTextFromHtml exParse (js ''htmlList'') \<noteq> BULLET @ js ''One'' @ [NL] @ BULLET @ js ''Two''"
  by code_simp

subsection \<open>C3: the size of the book\<close>

text \<open>
  C3 as stated fails: on the archive of the two chapters the size is 106 and the content
  has 104 code units. The size is the length of the aggregate before it is trimmed.
\<close>

theorem size_counterexample:
  "snd (convertEpubToText (exEnv (exZip ''opfAB'')) exFile) = Inr bookAB
   \<and> size' bookAB = 106 \<and> length (content bookAB) = 104
   \<and> size' bookAB \<noteq> length (content bookAB)"
proof -
  have "size' bookAB = 106 \<and> length (content bookAB) = 104 \<and> size' bookAB \<noteq> length (content bookAB)"
    by code_simp
  then show ?thesis using convert_AB by simp
qed

text \<open>
  C3, amended: for every successful conversion, the size of the returned book is the
  length of the aggregate before trimming: 0 when the content is empty, and otherwise the
  length of the content plus 2, for the two newlines that end the last separator.
\<close>

theorem size_of_book:
  assumes "convertEpubToText E file = (calls', Inr book)"
  shows "size' book = (if content book = [] then 0 else length (content book) + 2)"
proof -
  from convert_Inr[OF assms] obtain calls bk c ft where
    loop: "spineLoop E bk 0 [] calls = (c, Inr ft)" and cont: "content book = trim ft"
    and sz: "size' book = length ft"
    by auto
  let ?ts = "includedTexts E bk"
  have ft: "ft = concat (map (\<lambda>t. t @ SEPARATOR) ?ts)"
    using spineLoop_text[OF loop] by (simp add: includedTexts_def)
  show ?thesis
  proof (cases "?ts = []")
    case True
    then show ?thesis using ft cont sz by (simp add: trim_Nil)
  next
    case False
    from trim_chapters[OF False includedTexts_trimmed]
    have c: "content book = concat (map (\<lambda>t. t @ SEPARATOR) (butlast ?ts)) @ last ?ts @ [NL, NL] @ DASHES"
      by (simp add: cont ft)
    have "ft = concat (map (\<lambda>t. t @ SEPARATOR) (butlast ?ts @ [last ?ts]))"
      using False ft by simp
    then have "ft = content book @ [NL, NL]"
      by (simp add: c SEPARATOR_def)
    then show ?thesis using c sz by (simp add: DASHES_def)
  qed
qed

theorem size_of_book_witness:
  "convertEpubToText (exEnv (exZip ''opfAB'')) exFile = (callsAB, Inr bookAB)
   \<and> size' bookAB = (if content bookAB = [] then 0 else length (content bookAB) + 2)"
proof -
  note t = size_of_book[OF convert_AB]
  show ?thesis
    by (intro conjI) (rule convert_AB t)+
qed

subsection \<open>C4: a missing or unparseable manifest document\<close>

text \<open>
  C4 as stated fails in its second half. The text of \<open>OEBPS/content.opf\<close> is not XML and
  the parser returns its error document; the source never looks for one, finds no title,
  no item and no spine reference in it, and returns a book with the default title and
  author and no content.
\<close>

theorem unparseable_manifest_counterexample:
  "exZip ''garbage'' (js ''OEBPS/content.opf'') = Some (Readable (js ''garbage''))
   \<and> exParse ApplicationXml (js ''garbage'') = Element (js ''parsererror'') [] [Text (js ''error'')]
   \<and> convertEpubToText (exEnv (exZip ''garbage'')) exFile =
       ([(10, Unzipping), (20, ReadingMetadata), (100, Finalizing)], Inr bookUntitled)"
  by code_simp

text \<open>
  C4, amended: for every archive whose container names the path of the root manifest
  document, the conversion fails with the error of the missing manifest if and only if
  the archive has no file entry at that path; in that case no book is returned. A manifest
  text that cannot be parsed as XML does not fail the conversion: the parser's error
  document is read like any other.
\<close>

theorem manifest_missing_iff:
  assumes "resolveContainer E file = Inr (z, fp)"
  shows "snd (convertEpubToText E file) = Inl (OpfMissing fp) \<longleftrightarrow> z fp = None"
proof (cases "z fp")
  case None
  then show ?thesis
    using assms by (simp add: convertEpubToText_def openBook_def)
next
  case (Some en)
  show ?thesis
  proof (cases en)
    case Unreadable
    with Some assms show ?thesis by (simp add: convertEpubToText_def openBook_def)
  next
    case (Readable opfContent)
    with Some assms obtain bk where
      ob: "openBook E file = ([(10, Unzipping), (20, ReadingMetadata)], Inr bk)"
      by (simp add: openBook_def Let_def)
    obtain c r where loop: "spineLoop E bk 0 [] [(10, Unzipping), (20, ReadingMetadata)] = (c, r)"
      by (cases "spineLoop E bk 0 [] [(10, Unzipping), (20, ReadingMetadata)]")
    have "snd (convertEpubToText E file) \<noteq> Inl (OpfMissing fp)"
    proof (cases r)
      case (Inl e)
      with spineLoop_error loop have "e = URIError \<or> e = TypeError \<or> e = ZipError" by blast
      then show ?thesis using ob loop Inl by (auto simp: convertEpubToText_def)
    next
      case (Inr ft)
      then show ?thesis using ob loop by (simp add: convertEpubToText_def)
    qed
    with Some show ?thesis by simp
  qed
qed

theorem manifest_missing_iff_witness:
  "resolveContainer (exEnv exZipNoOpf) exFile = Inr (exZipNoOpf, js ''OEBPS/content.opf'')
   \<and> exZipNoOpf (js ''OEBPS/content.opf'') = None
   \<and> snd (convertEpubToText (exEnv exZipNoOpf) exFile) = Inl (OpfMissing (js ''OEBPS/content.opf''))"
proof -
  have none: "exZipNoOpf (js ''OEBPS/content.opf'') = None"
    by (simp add: exZipNoOpf_def js_def)
  from manifest_missing_iff[OF resolve_noOpf] none
  have t: "snd (convertEpubToText (exEnv exZipNoOpf) exFile) = Inl (OpfMissing (js ''OEBPS/content.opf''))"
    by (rule iffD2)
  show ?thesis
    by (intro conjI) (rule resolve_noOpf none t)+
qed

subsection \<open>C5: the normalized text\<close>

text \<open>
  C5: the text returned is claimed to have no run of three or more newlines. For the
  body \<open><p>a</p><p> </p><p>b</p>\<close> the code returns \<open>a\<close>, four newlines and \<open>b\<close>: runs of
  newlines are collapsed before the lines are trimmed, so a line of whitespace between
  two runs becomes empty afterwards and joins them.
\<close>

theorem blank_line_newline_run:
  "exParse TextHtml (js ''htmlBlank'') = blankParagraphDoc
   \<and> walk (Element (js ''body'') [] [Element (js ''p'') [] [Text (js ''a'')],
         Element (js ''p'') [] [Text (js '' '')], Element (js ''p'') [] [Text (js ''b'')]])
       = js ''a'' @ [NL, NL] @ js '' '' @ [NL, NL] @ js ''b'' @ [NL, NL]
   \<and> extractTextFromHtml exParse (js ''htmlBlank'') = js ''a'' @ [NL, NL, NL, NL] @ js ''b''"
  by code_simp

subsection \<open>C6: the rule for the nav property\<close>

text \<open>
  C6 as stated fails: the rule tests whether \<open>nav\<close> occurs in the properties string. An
  item with the properties \<open>navigation\<close>, which has no token \<open>nav\<close>, is skipped by it.
\<close>

theorem nav_substring_counterexample:
  "js ''nav'' \<notin> set (propertyTokens (properties (exItem ''x'' ''x.html'' ''navigation'')))
   \<and> itemOutcome (exEnv (exZip ''opfAB'')) (exZip ''opfAB'') (js ''OEBPS/'')
        (ItemObj (exItem ''x'' ''x.html'' ''navigation'')) 5 = SkippedNav (js ''x.html'')"
  by code_simp

text \<open>
  C6, amended: for every spine entry at every position, rule 1 skips the item if and
  only if its properties string contains \<open>nav\<close> as a substring; in particular an item
  whose properties, read as space-separated tokens, contain the token \<open>nav\<close> is skipped,
  and so is one that has \<open>nav\<close> only inside a longer token.
\<close>

theorem nav_rule:
  "(itemOutcome E z dir (ItemObj item) i = SkippedNav (href item)
      \<longleftrightarrow> (\<exists>pre post. properties item = pre @ js ''nav'' @ post))
   \<and> (js ''nav'' \<in> set (propertyTokens (properties item))
      \<longrightarrow> itemOutcome E z dir (ItemObj item) i = SkippedNav (href item))"
proof -
  have "js ''nav'' \<in> set (propertyTokens (properties item)) \<Longrightarrow> isNav item"
    by (auto simp: propertyTokens_def isNav_iff dest!: splitOn_sublist simp: sublist_def)
  then show ?thesis
    by (auto simp: itemOutcome_SkippedNav isNav_iff)
qed

theorem nav_rule_witness:
  "js ''nav'' \<in> set (propertyTokens (properties (exItem ''n'' ''n.html'' ''nav cover-image'')))
   \<and> itemOutcome (exEnv (exZip ''opfQuiet'')) (exZip ''opfQuiet'') (js ''OEBPS/'')
        (ItemObj (exItem ''n'' ''n.html'' ''nav cover-image'')) 7
       = SkippedNav (href (exItem ''n'' ''n.html'' ''nav cover-image''))"
proof -
  have tok: "js ''nav'' \<in> set (propertyTokens (properties (exItem ''n'' ''n.html'' ''nav cover-image'')))"
    by code_simp
  from nav_rule[of "exEnv (exZip ''opfQuiet'')" "exZip ''opfQuiet''" "js ''OEBPS/''"
      "exItem ''n'' ''n.html'' ''nav cover-image''" 7]
  have "js ''nav'' \<in> set (propertyTokens (properties (exItem ''n'' ''n.html'' ''nav cover-image'')))
      \<longrightarrow> itemOutcome (exEnv (exZip ''opfQuiet'')) (exZip ''opfQuiet'') (js ''OEBPS/'')
        (ItemObj (exItem ''n'' ''n.html'' ''nav cover-image'')) 7
       = SkippedNav (href (exItem ''n'' ''n.html'' ''nav cover-image''))"
    by (rule conjunct2)
  from this tok have t: "itemOutcome (exEnv (exZip ''opfQuiet'')) (exZip ''opfQuiet'') (js ''OEBPS/'')
        (ItemObj (exItem ''n'' ''n.html'' ''nav cover-image'')) 7
       = SkippedNav (href (exItem ''n'' ''n.html'' ''nav cover-image''))"
    by (rule mp)
  show ?thesis
    by (intro conjI) (rule tok t)+
qed

subsection \<open>C7: failures of one item\<close>

text \<open>
  C7: every failure of one item is claimed to be handled in the loop, the item skipped
  and the conversion carried on. A content file that is missing is handled so; a path
  that \<open>decodeURIComponent\<close> rejects is not. The first item of this manifest has the href
  \<open>100%.html\<close>: the call throws URIError, nothing catches it, and the conversion ends at the
  first of two chapters with no book.
\<close>

theorem bad_escape_aborts:
  "decodeURIComponent (js ''OEBPS/100%.html'') = Inl URIError
   \<and> convertEpubToText (exEnv (exZip ''opfPercent'')) exFile =
       ([(10, Unzipping), (20, ReadingMetadata), (30, ProcessingChapter 1 2)], Inl URIError)"
  by code_simp

subsection \<open>C8: the progress percentages\<close>

text \<open>
  C8 as stated fails for a conversion that fails: on an archive with no container the
  only progress call reports 10, and the conversion throws.
\<close>

theorem failed_run_progress_counterexample:
  "convertEpubToText (exEnv Map.empty) exFile = ([(10, Unzipping)], Inl MissingContainer)
   \<and> fst (last (fst (convertEpubToText (exEnv Map.empty) exFile))) \<noteq> 100"
  by code_simp

text \<open>
  C8, amended: for every conversion, failed or not, the percentages delivered to the
  callback never decrease, and for every conversion that returns a book the last call
  reports exactly 100. The rounding of the division and of the multiplication to doubles
  enters only through its being monotone and exact on 0, 1 and 60.
\<close>

theorem progress_sorted:
  assumes "mono (fl E)" "fl E 0 = 0" "fl E 1 = 1" "fl E 60 = 60"
    and "convertEpubToText E file = (calls, r)"
  shows "sorted (map fst calls) \<and> (\<forall>book. r = Inr book \<longrightarrow> fst (last calls) = 100)"
proof (cases "openBook E file")
  case (Pair c0 r0)
  show ?thesis
  proof (cases r0)
    case (Inl e)
    with Pair assms(5) have "calls = c0" by (simp add: convertEpubToText_def)
    with openBook_calls[OF Pair] Inl assms(5) Pair show ?thesis
      by (auto simp: convertEpubToText_def)
  next
    case (Inr bk)
    with openBook_calls[OF Pair] have c0: "c0 = [(10, Unzipping), (20, ReadingMetadata)]" by auto
    obtain c1 r1 where loop: "spineLoop E bk 0 [] c0 = (c1, r1)" by (cases "spineLoop E bk 0 [] c0")
    from spineLoop_calls[OF loop] obtain k where k: "k \<le> length (spine bk)"
      and c1: "map fst c1 = [10, 20] @ map (\<lambda>j. progressPercent E j (length (spine bk))) [0..<k]"
      by (auto simp: c0)
    have all: "sorted (([10, 20] @ map (\<lambda>j. progressPercent E j (length (spine bk))) [0..<k]) @ [100])"
      using sorted_percentages[OF assms(1-4) k] by simp
    show ?thesis
    proof (cases r1)
      case (Inl e)
      then have "calls = c1" "r = Inl e"
        using assms(5) Pair Inr loop by (auto simp: convertEpubToText_def)
      then show ?thesis using sorted_front[OF all] c1 by simp
    next
      case (Inr ft)
      then have "calls = c1 @ [(100, Finalizing)]"
        using assms(5) Pair \<open>r0 = Inr bk\<close> loop by (auto simp: convertEpubToText_def)
      then show ?thesis using all c1 by simp
    qed
  qed
qed

theorem progress_sorted_witness:
  "mono (fl (exEnv (exZip ''opfAB''))) \<and> fl (exEnv (exZip ''opfAB'')) 0 = 0
   \<and> fl (exEnv (exZip ''opfAB'')) 1 = 1 \<and> fl (exEnv (exZip ''opfAB'')) 60 = 60
   \<and> convertEpubToText (exEnv (exZip ''opfAB'')) exFile = (callsAB, Inr bookAB)
   \<and> sorted (map fst callsAB) \<and> fst (last callsAB) = 100"
proof -
  have f0: "fl (exEnv (exZip ''opfAB'')) 0 = 0" and f1: "fl (exEnv (exZip ''opfAB'')) 1 = 1"
    and f60: "fl (exEnv (exZip ''opfAB'')) 60 = 60"
    by (simp_all add: exEnv_def)
  note t = progress_sorted[OF mono_exEnv f0 f1 f60 convert_AB]
  from t have s: "sorted (map fst callsAB)" by (rule conjunct1)
  from t have l: "fst (last callsAB) = 100" by blast
  show ?thesis
    by (intro conjI) (rule mono_exEnv f0 f1 f60 convert_AB s l)+
qed

subsection \<open>C9: the retained spine entries\<close>

text \<open>
  C9: every retained spine entry is claimed to have an identifier that is a key of the
  manifest mapping. The filter reads \<open>manifestItems[idref]\<close> on a plain object, and the
  read of \<open>constructor\<close> finds the function that every object inherits: the reference is
  retained though no item has that id. In the loop the value has no \<open>href\<close>, and
  \<open>item.href.toLowerCase()\<close> throws.
\<close>

theorem inherited_name_retained:
  "map idref (spineRefs (exParse ApplicationXml (js ''opfConstructor''))) = [js ''constructor'', js ''a'']
   \<and> own (parseManifest (exParse ApplicationXml (js ''opfConstructor''))) (js ''constructor'') = None
   \<and> map idref (parseSpine (parseManifest (exParse ApplicationXml (js ''opfConstructor'')))
        (exParse ApplicationXml (js ''opfConstructor''))) = [js ''constructor'', js ''a'']
   \<and> convertEpubToText (exEnv (exZip ''opfConstructor'')) exFile =
       ([(10, Unzipping), (20, ReadingMetadata), (30, ProcessingChapter 1 2)], Inl TypeError)"
  by code_simp

subsection \<open>C10: nothing to include\<close>

text \<open>
  C10: when every retained spine entry is skipped by the classifier, absent from the
  archive or blank, the conversion is claimed to succeed with the empty content and the
  size 0. The archive here holds the container and the manifest document only; the one
  manifest item, the one spine entry, has the href \<open>100%.html\<close>, is not skipped by the
  classifier, and no file of the archive belongs to it. The path is decoded before it is
  looked up: \<open>decodeURIComponent\<close> throws URIError, the lookup that would find the file
  missing is never reached, and the conversion fails with no book.
\<close>

theorem absent_item_aborts:
  "map idref (spineRefs (exParse ApplicationXml (js ''opfOnlyPercent''))) = [js ''a'']
   \<and> exZipBare ''opfOnlyPercent'' (js ''OEBPS/100%.html'') = None
   \<and> convertEpubToText (exEnv (exZipBare ''opfOnlyPercent'')) exFile =
       ([(10, Unzipping), (20, ReadingMetadata), (30, ProcessingChapter 1 1)], Inl URIError)"
  by code_simp

section \<open>Further properties\<close>

text \<open>
  The part of C5 that holds: whatever the document, no line of the text returned by the
  converter has leading or trailing whitespace (a line being what lies between two
  newlines), and neither has the text as a whole.
\<close>

theorem lines_trimmed:
  "list_all (\<lambda>l. trim l = l) (splitOn NL (extractTextFromHtml P h))
   \<and> trim (extractTextFromHtml P h) = extractTextFromHtml P h"
  using lines_normalize[of "walk (case body (removeNodes (P TextHtml h)) of
      None \<Rightarrow> removeNodes (P TextHtml h) | Some b \<Rightarrow> b)"]
  by (simp add: extractTextFromHtml_def Let_def list_all_iff extract_trimmed[unfolded extractTextFromHtml_def Let_def])

text \<open>
  The part of C9 that holds: when no manifest item has replaced the prototype of the
  manifest object and no spine reference names a member of \<open>Object.prototype\<close>, the
  retained spine is the list of references, in document order, whose identifier is not
  empty and is a key of the manifest mapping.
\<close>

theorem retained_spine_keys:
  assumes "proto (parseManifest d) = None"
    and "\<forall>s\<in>set (spineRefs d). idref s \<notin> set (js ''__proto__'' # objectPrototypeNames)"
  shows "parseSpine (parseManifest d) d =
         filter (\<lambda>s. idref s \<noteq> [] \<and> idref s \<in> dom (own (parseManifest d))) (spineRefs d)"
  unfolding parseSpine_def
  using assms(2) getProp_own_iff[OF assms(1)]
  by (intro filter_cong) auto

theorem retained_spine_keys_witness:
  "proto (parseManifest (exParse ApplicationXml (js ''opfAB''))) = None
   \<and> list_all (\<lambda>s. idref s \<notin> set (js ''__proto__'' # objectPrototypeNames))
        (spineRefs (exParse ApplicationXml (js ''opfAB'')))
   \<and> parseSpine (parseManifest (exParse ApplicationXml (js ''opfAB''))) (exParse ApplicationXml (js ''opfAB'')) =
       filter (\<lambda>s. idref s \<noteq> []
                 \<and> idref s \<in> dom (own (parseManifest (exParse ApplicationXml (js ''opfAB'')))))
         (spineRefs (exParse ApplicationXml (js ''opfAB'')))"
proof -
  have h1: "proto (parseManifest (exParse ApplicationXml (js ''opfAB''))) = None"
    by code_simp
  have h2: "list_all (\<lambda>s. idref s \<notin> set (js ''__proto__'' # objectPrototypeNames))
        (spineRefs (exParse ApplicationXml (js ''opfAB'')))"
    by code_simp
  then have h2': "\<forall>s\<in>set (spineRefs (exParse ApplicationXml (js ''opfAB''))).
      idref s \<notin> set (js ''__proto__'' # objectPrototypeNames)"
    by (simp only: list_all_iff)
  note t = retained_spine_keys[OF h1 h2']
  show ?thesis
    by (intro conjI) (rule h1 h2 t)+
qed

text \<open>
  The general form of what C7 is about: once the container and the manifest are read, the
  conversion returns a book if and only if no pass of the loop throws. A skipped item, a
  content file missing from the archive and a blank text are not throws; a path that
  cannot be decoded, an entry that cannot be read and a value that is not an item are.
\<close>

theorem returns_iff_no_throw:
  assumes "openBook E file = (calls, Inr bk)"
  shows "(\<exists>book. snd (convertEpubToText E file) = Inr book)
           \<longleftrightarrow> (\<forall>i<length (spine bk). \<forall>e. outcomeAt E bk i \<noteq> Thrown e)"
proof -
  have "(\<exists>book. snd (convertEpubToText E file) = Inr book)
          \<longleftrightarrow> (\<exists>c ft. spineLoop E bk 0 [] calls = (c, Inr ft))"
    using assms
    by (cases "spineLoop E bk 0 [] calls"; cases "snd (spineLoop E bk 0 [] calls)")
       (auto simp: convertEpubToText_def)
  then show ?thesis
    by (simp add: spineLoop_returns_iff)
qed

theorem returns_iff_no_throw_witness:
  "openBook (exEnv (exZip ''opfAB'')) exFile = ([(10, Unzipping), (20, ReadingMetadata)], Inr openedAB)
   \<and> map (outcomeAt (exEnv (exZip ''opfAB'')) openedAB) [0, 1] = [Converted (js ''A''), Converted (js ''B'')]
   \<and> \<not> isl (snd (convertEpubToText (exEnv (exZip ''opfAB'')) exFile))"
proof -
  have len: "length (spine openedAB) = 2"
    by (simp add: openedAB_def)
  have "\<forall>i<2. \<forall>e. outcomeAt (exEnv (exZip ''opfAB'')) openedAB i \<noteq> Thrown e"
  proof (intro allI impI)
    fix i :: nat and e
    assume "i < 2"
    then have "i = 0 \<or> i = 1" by auto
    then show "outcomeAt (exEnv (exZip ''opfAB'')) openedAB i \<noteq> Thrown e"
      using outcomes_AB by auto
  qed
  then have "\<forall>i<length (spine openedAB). \<forall>e. outcomeAt (exEnv (exZip ''opfAB'')) openedAB i \<noteq> Thrown e"
    by (simp add: len)
  with returns_iff_no_throw[OF open_AB]
  have "\<exists>book. snd (convertEpubToText (exEnv (exZip ''opfAB'')) exFile) = Inr book"
    by (rule iffD2)
  then have t: "\<not> isl (snd (convertEpubToText (exEnv (exZip ''opfAB'')) exFile))"
    by auto
  show ?thesis
    by (intro conjI) (rule open_AB outcomes_AB t)+
qed

text \<open>
  The part of C10 that holds: once the container and the manifest document are read, if
  every pass of the loop ends in one of its three \<open>continue\<close> branches (the nav rule, the
  filename rule, no file at the decoded path) or converts to blank text, the conversion
  returns a book with the empty content and the size 0. A pass that throws is none of
  these.
\<close>

theorem empty_book:
  assumes "openBook E file = (calls, Inr bk)"
    and "\<forall>i<length (spine bk). addsNothing (outcomeAt E bk i)"
  shows "\<exists>book. snd (convertEpubToText E file) = Inr book \<and> content book = [] \<and> size' book = 0"
proof -
  from assms(2) have "\<forall>j. 0 \<le> j \<and> j < length (spine bk) \<longrightarrow> addsNothing (outcomeAt E bk j)"
    by simp
  from spineLoop_addsNothing[OF this] obtain c where "spineLoop E bk 0 [] calls = (c, Inr [])"
    by blast
  then show ?thesis
    using assms(1) by (simp add: convertEpubToText_def trim_Nil)
qed

theorem empty_book_witness:
  "openBook (exEnv (exZip ''opfQuiet'')) exFile = ([(10, Unzipping), (20, ReadingMetadata)], Inr openedQuiet)
   \<and> map (outcomeAt (exEnv (exZip ''opfQuiet'')) openedQuiet) [0, 1, 2] =
       [SkippedNav (js ''n.html''), MissingFile (js ''OEBPS/missing.html''), Converted []]
   \<and> map_sum id content (snd (convertEpubToText (exEnv (exZip ''opfQuiet'')) exFile)) = Inr []
   \<and> map_sum id size' (snd (convertEpubToText (exEnv (exZip ''opfQuiet'')) exFile)) = Inr 0"
proof -
  have len: "length (spine openedQuiet) = 3"
    by (simp add: openedQuiet_def)
  have "\<forall>i<3. addsNothing (outcomeAt (exEnv (exZip ''opfQuiet'')) openedQuiet i)"
  proof (intro allI impI)
    fix i :: nat
    assume "i < 3"
    then have "i = 0 \<or> i = 1 \<or> i = 2" by auto
    then show "addsNothing (outcomeAt (exEnv (exZip ''opfQuiet'')) openedQuiet i)"
      using outcomes_Quiet by (auto simp: trim_Nil)
  qed
  then have all: "\<forall>i<length (spine openedQuiet). addsNothing (outcomeAt (exEnv (exZip ''opfQuiet'')) openedQuiet i)"
    by (simp add: len)
  from empty_book[OF open_Quiet all] obtain book where
    "snd (convertEpubToText (exEnv (exZip ''opfQuiet'')) exFile) = Inr book"
    "content book = []" "size' book = 0"
    by blast
  then have t: "map_sum id content (snd (convertEpubToText (exEnv (exZip ''opfQuiet'')) exFile)) = Inr []"
    "map_sum id size' (snd (convertEpubToText (exEnv (exZip ''opfQuiet'')) exFile)) = Inr 0"
    by simp_all
  show ?thesis
    by (intro conjI) (rule open_Quiet outcomes_Quiet t)+
qed

end
